theory Spec2Isabelle
  imports Main
begin

section \<open>Regular expressions of the host language\<close>

text \<open>
  The program uses two regular expressions, both with the global flag:
  \<^verbatim>\<open>codeBlocksMdSymbolRegex\<close> (a constant of \<^verbatim>\<open>src/constant.ts\<close>) through
  \<^verbatim>\<open>String.prototype.match\<close>, and the configured security pattern through
  \<^verbatim>\<open>String.prototype.replace\<close>. A compiled expression is modelled by what it does at one
  position of the subject: given the text before the position and the text from the
  position on, the length of the match that starts there, if there is one. Strings are
  lists of \<^typ>\<open>char\<close>; a code unit outside ASCII is neither a backtick nor a word
  character, as in the source.
\<close>

type_synonym matcher = "string \<Rightarrow> string \<Rightarrow> nat option"

datatype segment = Kept char | Matched string

text \<open>
  The global scan shared by \<^verbatim>\<open>match\<close> and \<^verbatim>\<open>replace\<close>: matches are looked for from left
  to right, the search resumes where the last match ended, and after an empty match it
  resumes one code unit further (the unit in between is kept).
\<close>

function segments :: "matcher \<Rightarrow> string \<Rightarrow> string \<Rightarrow> segment list" where
  "segments m pre [] = (case m pre [] of None \<Rightarrow> [] | Some n \<Rightarrow> [Matched []])"
| "segments m pre (c # cs) =
     (case m pre (c # cs) of
        None \<Rightarrow> Kept c # segments m (pre @ [c]) cs
      | Some n \<Rightarrow>
          if n = 0 then Matched [] # Kept c # segments m (pre @ [c]) cs
          else Matched (take n (c # cs)) # segments m (pre @ take n (c # cs)) (drop n (c # cs)))"
  by pat_completeness auto
termination
  by (relation "measure (\<lambda>(m, pre, s). length s)") auto

text \<open>\<^verbatim>\<open>text.match(regex) || []\<close> with a global regex: the matched substrings, in order.\<close>

definition js_match :: "matcher \<Rightarrow> string \<Rightarrow> string list" where
  "js_match m s = concat (map (\<lambda>g. case g of Kept c \<Rightarrow> [] | Matched x \<Rightarrow> [x]) (segments m [] s))"

text \<open>
  \<^verbatim>\<open>text.replace(regex, replacement)\<close> with a global regex and a replacement that has no
  \<^verbatim>\<open>$\<close> pattern: the text between the matches is copied, each match gives the replacement.
\<close>

definition js_replace :: "matcher \<Rightarrow> string \<Rightarrow> string \<Rightarrow> string" where
  "js_replace m s r = concat (map (\<lambda>g. case g of Kept c \<Rightarrow> [c] | Matched x \<Rightarrow> r) (segments m [] s))"

subsection \<open>The code-fence expression\<close>

definition backtick :: char where
  "backtick = CHR 0x60"

text \<open>\<^verbatim>\<open>\w\<close> without the unicode flag: a letter, a digit or the underscore.\<close>

definition isWordChar :: "char \<Rightarrow> bool" where
  "isWordChar c =
     (let n = (of_char c :: nat)
      in (48 \<le> n \<and> n \<le> 57) \<or> (65 \<le> n \<and> n \<le> 90) \<or> n = 95 \<or> (97 \<le> n \<and> n \<le> 122))"

text \<open>
  \<^verbatim>\<open>export const codeBlocksMdSymbolRegex = /```(\w?)*/g\<close>: three backticks, then word
  characters, as many as there are (an iteration of the starred group that matches the
  empty string ends the repetition).
\<close>

definition codeBlocksMdSymbolRegex :: matcher where
  "codeBlocksMdSymbolRegex pre rest =
     (if take 3 rest = [backtick, backtick, backtick]
      then Some (3 + length (takeWhile isWordChar (drop 3 rest)))
      else None)"

text \<open>
  The test of \<^verbatim>\<open>sendMessage\<close> on a reply's text (lines 122 to 125):
  \<^verbatim>\<open>(resMessage.text.match(codeBlocksMdSymbolRegex) || []).length % 2 === 1\<close>.
\<close>

definition needsContinuation :: "string \<Rightarrow> bool" where
  "needsContinuation text = (length (js_match codeBlocksMdSymbolRegex text) mod 2 = 1)"

text \<open>
  The specification's count: the occurrences of the fence marker (three backticks) in a
  text, counted from left to right without overlap.
\<close>

function countFence :: "string \<Rightarrow> nat" where
  "countFence [] = 0"
| "countFence (c # cs) =
     (if take 3 (c # cs) = [backtick, backtick, backtick]
      then Suc (countFence (drop 3 (c # cs)))
      else countFence cs)"
  by pat_completeness auto
termination
  by (relation "measure length") auto

section \<open>Data model\<close>

text \<open>
  What the program throws or receives as a rejection. \<open>Error\<close> is \<^verbatim>\<open>new Error(message)\<close> with
  the message of the source. The others are raised by the engine, by Node or by the chat
  client, and their messages are not modelled: the \<^verbatim>\<open>SyntaxError\<close> of \<^verbatim>\<open>new RegExp\<close> on a source
  that is no pattern, a \<^verbatim>\<open>TypeError\<close> (a path that is not a string, a value that is not
  iterable or not a function), the system error of \<^verbatim>\<open>fs.readFileSync\<close> on a path that cannot be
  read, the \<^verbatim>\<open>ReferenceError\<close> of an identifier that is not bound, the time-out and the
  cancellation of a request, and any other rejection of the remote call.
\<close>

datatype error =
    Error string
  | SyntaxError string
  | TypeError
  | SystemError string
  | ReferenceError string
  | TimeoutError
  | CancelledError
  | Rejected string

text \<open>
  An optional property of an object: the object does not have it, has it with the value
  \<^verbatim>\<open>undefined\<close>, or has it with a value. Reading it gives \<^verbatim>\<open>undefined\<close> in the first two
  cases; the spread \<^verbatim>\<open>{...a, ...b}\<close> takes the property of \<^verbatim>\<open>b\<close> whenever \<^verbatim>\<open>b\<close> has it.
\<close>

datatype 'a property = Absent | Undefined | Value 'a

definition read :: "'a property \<Rightarrow> 'a option" where
  "read p = (case p of Value v \<Rightarrow> Some v | _ \<Rightarrow> None)"

definition spread :: "'a property \<Rightarrow> 'a property \<Rightarrow> 'a property" where
  "spread a b = (case b of Absent \<Rightarrow> a | _ \<Rightarrow> b)"

text \<open>
  \<^verbatim>\<open>ChatMessage\<close> of the package \<^verbatim>\<open>chatgpt\<close>: \<^verbatim>\<open>id\<close> and \<^verbatim>\<open>text\<close> are required,
  \<^verbatim>\<open>conversationId\<close> and \<^verbatim>\<open>parentMessageId\<close> are optional. Its other properties
  (\<^verbatim>\<open>role\<close>, \<^verbatim>\<open>name\<close>, \<^verbatim>\<open>delta\<close>, \<^verbatim>\<open>detail\<close>) are never read by the program and are
  left out.
\<close>

record ChatMessage =
  msg_id :: string
  msg_text :: string
  msg_conversationId :: "string property"
  msg_parentMessageId :: "string property"

text \<open>
  The second argument of \<^verbatim>\<open>sendMessage\<close> as \<^verbatim>\<open>sendFileResult\<close> builds it:
  \<^verbatim>\<open>{ conversationId: message?.conversationId, parentMessageId: message?.id }\<close>.
\<close>

record PrevMessage =
  prev_conversationId :: "string option"
  prev_parentMessageId :: "string option"

record AbortSignal =
  aborted :: bool

text \<open>
  \<^verbatim>\<open>SendMessageOptions\<close> as \<^verbatim>\<open>sendMessage\<close> fills them. The \<^verbatim>\<open>onProgress\<close> callback only
  sets the text of the spinner and is left out.
\<close>

record SendMessageOptions =
  conversationId :: "string option"
  parentMessageId :: "string option"
  timeoutMs :: int
  abortSignal :: AbortSignal

record request =
  req_text :: string
  req_options :: "SendMessageOptions option"

text \<open>
  The remote chat API is outside the program: any function from its own state and a
  request to a reply (a message or a rejection) and its next state.
\<close>

type_synonym 'w api = "'w \<Rightarrow> request \<Rightarrow> (error + ChatMessage) \<times> 'w"

text \<open>
  The three places where \<^verbatim>\<open>sendMessage\<close> calls \<^verbatim>\<open>this.api.sendMessage\<close>: line 101 (no
  previous message), line 119 (with options) and line 127 (the continuation). Every call
  is recorded with its request and its reply; the functions below return the calls they
  made, in order.
\<close>

datatype callsite = SendFirst | SendPrompt | SendContinue

type_synonym exchange = "callsite \<times> request \<times> (error + ChatMessage)"

text \<open>The fields of \<^verbatim>\<open>ChatgptProxyAPI\<close>: the retained message and the API object.\<close>

record 'w ChatgptProxyAPI =
  parentMessage :: "ChatMessage option"
  remote :: 'w

text \<open>
  Modelled from the spec: \<^verbatim>\<open>HuskyGPTTypeEnum\<close> is declared in \<^verbatim>\<open>src/types\<close>, which is
  not among the sources. The task kinds are review, test generation and commit summary;
  \<open>Other s\<close> is any other run-time value \<open>s\<close> of the option, which is read from the
  environment as a string.
\<close>

datatype HuskyGPTTypeEnum = Test | Review | Commit | Other string

text \<open>
  The options of \<^verbatim>\<open>userOptions.options\<close> that the modelled functions read. An option
  that is not set is \<open>None\<close>.
\<close>

record IUserOptions =
  huskyGPTType :: "HuskyGPTTypeEnum option"
  securityRegex :: "string option"
  openAIPrompt :: "string option"

text \<open>
  Modelled from the spec: \<^verbatim>\<open>IReadFileResult\<close> is declared in \<^verbatim>\<open>src/types\<close>; the prompt
  builder reads its optional \<^verbatim>\<open>fileContent\<close> and \<^verbatim>\<open>filePath\<close>.
\<close>

record IReadFileResult =
  filePath :: "string option"
  fileContent :: "string option"

text \<open>
  What the modelled functions call and the sources do not hold, taken as parameters:
  the files that \<^verbatim>\<open>fs.readFileSync\<close> can read, \<^verbatim>\<open>readPromptFile\<close> of
  \<^verbatim>\<open>src/utils/read-prompt-file\<close>, \<^verbatim>\<open>CodePicker.pickFunctionOrClassCodeArray\<close> of
  \<^verbatim>\<open>src/utils/pick-code\<close>, and \<^verbatim>\<open>new RegExp(source, 'gi')\<close>, which gives no matcher for a
  source that is not a pattern.
\<close>

record collaborators =
  files :: "string \<Rightarrow> string option"
  readPromptFile :: "string \<Rightarrow> error + string"
  pickFunctionOrClassCodeArray :: "string \<Rightarrow> error + string list"
  newRegExp :: "string \<Rightarrow> matcher option"

section \<open>Configuration (\<^verbatim>\<open>src/constant.ts\<close>)\<close>

text \<open>The getter \<^verbatim>\<open>userOptions.huskyGPTType\<close>; the empty string is falsy.\<close>

definition userOptions_huskyGPTType :: "IUserOptions \<Rightarrow> error + HuskyGPTTypeEnum" where
  "userOptions_huskyGPTType options =
     (case huskyGPTType options of
        None \<Rightarrow> Inl (Error ''huskyGPTType is not set'')
      | Some t \<Rightarrow> if t = Other [] then Inl (Error ''huskyGPTType is not set'') else Inr t)"

text \<open>
  \<^verbatim>\<open>securityPrompt\<close>: the prompt itself when \<^verbatim>\<open>securityRegex\<close> is falsy, else the prompt
  with every match of the pattern (flags \<^verbatim>\<open>gi\<close>) replaced by \<^verbatim>\<open>REMOVED\<close>.
\<close>

definition securityPrompt :: "collaborators \<Rightarrow> IUserOptions \<Rightarrow> string \<Rightarrow> error + string" where
  "securityPrompt env options prompt =
     (case securityRegex options of
        None \<Rightarrow> Inr prompt
      | Some source \<Rightarrow>
          if source = [] then Inr prompt
          else (case newRegExp env source of
                  None \<Rightarrow> Inl (SyntaxError source)
                | Some regex \<Rightarrow> Inr (js_replace regex prompt ''REMOVED'')))"

section \<open>Prompt builder (\<^verbatim>\<open>src/chatgpt/prompt.ts\<close>)\<close>

definition readFileSync :: "collaborators \<Rightarrow> string option \<Rightarrow> error + string" where
  "readFileSync env path =
     (case path of
        None \<Rightarrow> Inl TypeError
      | Some p \<Rightarrow> (case files env p of None \<Rightarrow> Inl (SystemError p) | Some content \<Rightarrow> Inr content))"

text \<open>\<^verbatim>\<open>fileResult.fileContent || fs.readFileSync(fileResult.filePath!, 'utf-8')\<close>\<close>

definition fileContentOf :: "collaborators \<Rightarrow> IReadFileResult \<Rightarrow> error + string" where
  "fileContentOf env fileResult =
     (case fileContent fileResult of
        None \<Rightarrow> readFileSync env (filePath fileResult)
      | Some content \<Rightarrow>
          if content = [] then readFileSync env (filePath fileResult) else Inr content)"

text \<open>
  The template literal of \<^verbatim>\<open>basePrompt\<close>: a line break and eight spaces before the
  task's prompt, the same before the user's prompt (or the empty string), a line break
  and six spaces at the end.
\<close>

definition basePrompt :: "string \<Rightarrow> IUserOptions \<Rightarrow> string" where
  "basePrompt taskPrompt options =
     CHR 0x0A # replicate 8 CHR '' '' @ taskPrompt @
     CHR 0x0A # replicate 8 CHR '' '' @ (case openAIPrompt options of None \<Rightarrow> [] | Some p \<Rightarrow> p) @
     CHR 0x0A # replicate 6 CHR '' ''"

text \<open>
  The entries of \<^verbatim>\<open>huskyGPTTypeMap\<close>. The entry of \<open>Commit\<close> reads the file content and
  then evaluates \<^verbatim>\<open>path.join(ROOT_SRC_DIR_PATH, ...)\<close>; \<^verbatim>\<open>prompt.ts\<close> imports \<^verbatim>\<open>fs\<close>,
  \<^verbatim>\<open>userOptions\<close>, the two types, \<^verbatim>\<open>CodePicker\<close> and \<^verbatim>\<open>readPromptFile\<close> only, so \<^verbatim>\<open>path\<close>
  is not bound there.
\<close>

definition testPrompts :: "collaborators \<Rightarrow> IUserOptions \<Rightarrow> IReadFileResult \<Rightarrow> error + string list" where
  "testPrompts env options fileResult =
     (case fileContentOf env fileResult of
        Inl e \<Rightarrow> Inl e
      | Inr content \<Rightarrow>
          (case readPromptFile env ''tests.txt'' of
             Inl e \<Rightarrow> Inl e
           | Inr testsPrompt \<Rightarrow>
               (case pickFunctionOrClassCodeArray env content of
                  Inl e \<Rightarrow> Inl e
                | Inr codePrompts \<Rightarrow> Inr (basePrompt testsPrompt options # codePrompts))))"

definition reviewPrompts :: "collaborators \<Rightarrow> IUserOptions \<Rightarrow> IReadFileResult \<Rightarrow> error + string list" where
  "reviewPrompts env options fileResult =
     (case fileContentOf env fileResult of
        Inl e \<Rightarrow> Inl e
      | Inr content \<Rightarrow>
          (case readPromptFile env ''review.txt'' of
             Inl e \<Rightarrow> Inl e
           | Inr reviewPrompt \<Rightarrow>
               (case pickFunctionOrClassCodeArray env content of
                  Inl e \<Rightarrow> Inl e
                | Inr codePrompts \<Rightarrow> Inr (basePrompt reviewPrompt options # codePrompts))))"

definition commitPrompts :: "collaborators \<Rightarrow> IUserOptions \<Rightarrow> IReadFileResult \<Rightarrow> error + string list" where
  "commitPrompts env options fileResult =
     (case fileContentOf env fileResult of
        Inl e \<Rightarrow> Inl e
      | Inr content \<Rightarrow> Inl (ReferenceError ''path''))"

text \<open>
  What \<^verbatim>\<open>generatePrompt\<close> returns at run time: the declared array of strings, or, for a
  task kind that is no key of the table, a string or a value that cannot be iterated (an
  object, a boolean or \<^verbatim>\<open>undefined\<close>).
\<close>

datatype returned = AnArray "string list" | AString string | NotIterable

text \<open>
  \<^verbatim>\<open>huskyGPTTypeMap\<close> is an object literal, so \<^verbatim>\<open>this.huskyGPTTypeMap[kind]\<close> also finds what
  the table inherits from \<^verbatim>\<open>Object.prototype\<close>, and each of these members is truthy. The
  function gives, for a name \<open>s\<close> that is not a key of the table, what
  \<^verbatim>\<open>this.huskyGPTTypeMap[s](fileResult)\<close> does with a file result, or \<open>None\<close> when the table
  has no member \<open>s\<close>:
  \<^item> \<^verbatim>\<open>toString\<close> and \<^verbatim>\<open>toLocaleString\<close> return the string \<^verbatim>\<open>[object Object]\<close>;
  \<^item> \<^verbatim>\<open>constructor\<close> returns the file result and \<^verbatim>\<open>valueOf\<close> the table, both objects;
  \<^item> \<^verbatim>\<open>hasOwnProperty\<close>, \<^verbatim>\<open>isPrototypeOf\<close> and \<^verbatim>\<open>propertyIsEnumerable\<close> return \<^verbatim>\<open>false\<close>,
    \<^verbatim>\<open>__lookupGetter__\<close> and \<^verbatim>\<open>__lookupSetter__\<close> return \<^verbatim>\<open>undefined\<close>;
  \<^item> \<^verbatim>\<open>__defineGetter__\<close> and \<^verbatim>\<open>__defineSetter__\<close> throw a \<^verbatim>\<open>TypeError\<close> for the missing
    function, and \<^verbatim>\<open>__proto__\<close> is an object, which cannot be called.
\<close>

definition inherited :: "string \<Rightarrow> (error + returned) option" where
  "inherited s =
     (if s \<in> set [''toString'', ''toLocaleString''] then Some (Inr (AString ''[object Object]''))
      else if s \<in> set [''constructor'', ''valueOf'', ''hasOwnProperty'', ''isPrototypeOf'',
                ''propertyIsEnumerable'', ''__lookupGetter__'', ''__lookupSetter__'']
        then Some (Inr NotIterable)
      else if s \<in> set [''__defineGetter__'', ''__defineSetter__'', ''__proto__'']
        then Some (Inl TypeError)
      else None)"

text \<open>\<^verbatim>\<open>HuskyGPTPrompt.generatePrompt\<close>, for \<^verbatim>\<open>new HuskyGPTPrompt(huskyGPTType)\<close>.\<close>

definition HuskyGPTPrompt_generatePrompt ::
  "collaborators \<Rightarrow> IUserOptions \<Rightarrow> HuskyGPTTypeEnum \<Rightarrow> IReadFileResult option \<Rightarrow> error + returned" where
  "HuskyGPTPrompt_generatePrompt env options type fileResult =
     (case fileResult of
        None \<Rightarrow> Inl (Error ''File path is required for generatePrompt'')
      | Some fr \<Rightarrow>
          (case type of
             Other s \<Rightarrow>
               (case inherited s of
                  None \<Rightarrow> Inl (Error (''Invalid huskyGPTType: '' @ s))
                | Some member \<Rightarrow> member)
           | Test \<Rightarrow> map_sum id AnArray (testPrompts env options fr)
           | Review \<Rightarrow> map_sum id AnArray (reviewPrompts env options fr)
           | Commit \<Rightarrow> map_sum id AnArray (commitPrompts env options fr)))"

section \<open>Chat session (\<^verbatim>\<open>ChatgptProxyAPI\<close>)\<close>

text \<open>The private \<^verbatim>\<open>generatePrompt\<close>: the task kind comes from the getter.\<close>

definition generatePrompt ::
  "collaborators \<Rightarrow> IUserOptions \<Rightarrow> IReadFileResult option \<Rightarrow> error + returned" where
  "generatePrompt env options fileResult =
     (case userOptions_huskyGPTType options of
        Inl e \<Rightarrow> Inl e
      | Inr type \<Rightarrow> HuskyGPTPrompt_generatePrompt env options type fileResult)"

text \<open>
  \<^verbatim>\<open>const [systemPrompt, ...codePrompts] = promptArray\<close>: the pattern iterates the value. An
  array gives its elements, a string its characters one by one, and any other value
  throws a \<^verbatim>\<open>TypeError\<close>.
\<close>

definition destructure :: "returned \<Rightarrow> error + string list" where
  "destructure promptArray =
     (case promptArray of
        AnArray prompts \<Rightarrow> Inr prompts
      | AString s \<Rightarrow> Inr (map (\<lambda>c. [c]) s)
      | NotIterable \<Rightarrow> Inl TypeError)"

text \<open>
  The first two lines of \<^verbatim>\<open>sendFileResult\<close> (158 and 159) together: the prompts of a file,
  the task prompt first.
\<close>

definition promptSet ::
  "collaborators \<Rightarrow> IUserOptions \<Rightarrow> IReadFileResult option \<Rightarrow> error + string list" where
  "promptSet env options fileResult =
     (case generatePrompt env options fileResult of
        Inl e \<Rightarrow> Inl e
      | Inr promptArray \<Rightarrow> destructure promptArray)"

definition callApi ::
  "'w api \<Rightarrow> callsite \<Rightarrow> request \<Rightarrow> 'w ChatgptProxyAPI \<Rightarrow>
     (error + ChatMessage) \<times> exchange list \<times> 'w ChatgptProxyAPI" where
  "callApi api site rq this =
     (case api (remote this) rq of
        (reply, w) \<Rightarrow> (reply, [(site, rq, reply)], this\<lparr>remote := w\<rparr>))"

text \<open>
  \<^verbatim>\<open>const sendOptions = { ...prevMessage, timeoutMs: 1000 * 60 * 5, abortSignal: signal, ... }\<close>
  with the signal of a controller made in \<^verbatim>\<open>sendMessage\<close>, which nothing aborts.
\<close>

definition sendOptions :: "PrevMessage \<Rightarrow> SendMessageOptions" where
  "sendOptions prevMessage =
     \<lparr>conversationId = prev_conversationId prevMessage,
      parentMessageId = prev_parentMessageId prevMessage,
      timeoutMs = 1000 * 60 * 5,
      abortSignal = \<lparr>aborted = False\<rparr>\<rparr>"

text \<open>
  \<^verbatim>\<open>{ ...resMessage, ...nextMessage, text: `${resMessage.text}${nextMessage.text}` }\<close>
\<close>

definition mergeMessage :: "ChatMessage \<Rightarrow> ChatMessage \<Rightarrow> ChatMessage" where
  "mergeMessage resMessage nextMessage =
     \<lparr>msg_id = msg_id nextMessage,
      msg_text = msg_text resMessage @ msg_text nextMessage,
      msg_conversationId = spread (msg_conversationId resMessage) (msg_conversationId nextMessage),
      msg_parentMessageId = spread (msg_parentMessageId resMessage) (msg_parentMessageId nextMessage)\<rparr>"

text \<open>
  \<^verbatim>\<open>sendMessage\<close>. The spinner is not modelled, but \<^verbatim>\<open>this.oraStart()\<close> reads
  \<^verbatim>\<open>this.needPrintMessage\<close>, which calls the getter of the task kind and throws with it.
\<close>

definition sendMessage ::
  "'w api \<Rightarrow> collaborators \<Rightarrow> IUserOptions \<Rightarrow> string \<Rightarrow> PrevMessage option \<Rightarrow> 'w ChatgptProxyAPI \<Rightarrow>
     (error + ChatMessage) \<times> exchange list \<times> 'w ChatgptProxyAPI" where
  "sendMessage api env options prompt prevMessage this =
     (case securityPrompt env options prompt of
        Inl e \<Rightarrow> (Inl e, [], this)
      | Inr securityPrompt' \<Rightarrow>
          (case prevMessage of
             None \<Rightarrow> callApi api SendFirst \<lparr>req_text = securityPrompt', req_options = None\<rparr> this
           | Some prev \<Rightarrow>
               (case userOptions_huskyGPTType options of
                  Inl e \<Rightarrow> (Inl e, [], this)
                | Inr type \<Rightarrow>
                    (case callApi api SendPrompt
                            \<lparr>req_text = securityPrompt', req_options = Some (sendOptions prev)\<rparr> this of
                       (Inl e, t1, this1) \<Rightarrow> (Inl e, t1, this1)
                     | (Inr resMessage, t1, this1) \<Rightarrow>
                         if needsContinuation (msg_text resMessage)
                         then (case callApi api SendContinue
                                      \<lparr>req_text = ''continue'',
                                       req_options = Some ((sendOptions prev)
                                         \<lparr>conversationId := read (msg_conversationId resMessage),
                                          parentMessageId := Some (msg_id resMessage)\<rparr>)\<rparr> this1 of
                                 (Inl e, t2, this2) \<Rightarrow> (Inl e, t1 @ t2, this2)
                               | (Inr nextMessage, t2, this2) \<Rightarrow>
                                   (Inr (mergeMessage resMessage nextMessage), t1 @ t2, this2))
                         else (Inr resMessage, t1, this1)))))"

text \<open>The loop of \<^verbatim>\<open>sendFileResult\<close> over the code prompts.\<close>

fun sendCodePrompts ::
  "'w api \<Rightarrow> collaborators \<Rightarrow> IUserOptions \<Rightarrow> string list \<Rightarrow> ChatMessage \<Rightarrow> string list \<Rightarrow>
     'w ChatgptProxyAPI \<Rightarrow> (error + string list) \<times> exchange list \<times> 'w ChatgptProxyAPI" where
  "sendCodePrompts api env options [] message messageArray this = (Inr messageArray, [], this)"
| "sendCodePrompts api env options (prompt # codePrompts) message messageArray this =
     (case sendMessage api env options prompt
             (Some \<lparr>prev_conversationId = read (msg_conversationId message),
                    prev_parentMessageId = Some (msg_id message)\<rparr>) this of
        (Inl e, t1, this1) \<Rightarrow> (Inl e, t1, this1)
      | (Inr message', t1, this1) \<Rightarrow>
          (case sendCodePrompts api env options codePrompts message'
                  (messageArray @ [msg_text message']) (this1\<lparr>parentMessage := Some message'\<rparr>) of
             (r, t2, this2) \<Rightarrow> (r, t1 @ t2, this2)))"

definition sendFileResult ::
  "'w api \<Rightarrow> collaborators \<Rightarrow> IUserOptions \<Rightarrow> IReadFileResult option \<Rightarrow> 'w ChatgptProxyAPI \<Rightarrow>
     (error + string list) \<times> exchange list \<times> 'w ChatgptProxyAPI" where
  "sendFileResult api env options fileResult this =
     (case promptSet env options fileResult of
        Inl e \<Rightarrow> (Inl e, [], this)
      | Inr promptArray \<Rightarrow>
          (case promptArray of
             [] \<Rightarrow> (Inr [], [], this)
           | systemPrompt # codePrompts \<Rightarrow>
               if codePrompts = [] then (Inr [], [], this)
               else (case (case parentMessage this of
                             Some m \<Rightarrow> (Inr m, [], this)
                           | None \<Rightarrow> sendMessage api env options systemPrompt None this) of
                       (Inl e, t0, this0) \<Rightarrow> (Inl e, t0, this0)
                     | (Inr message, t0, this0) \<Rightarrow>
                         (case sendCodePrompts api env options codePrompts message [] this0 of
                            (r, t, this1) \<Rightarrow> (r, t0 @ t, this1)))))"

text \<open>
  \<^verbatim>\<open>run\<close>: the text of the spinner is built from the getter of the task kind before the
  promise chain starts; a rejection of \<^verbatim>\<open>sendFileResult\<close> is caught and gives the fixed
  message.
\<close>

definition run ::
  "'w api \<Rightarrow> collaborators \<Rightarrow> IUserOptions \<Rightarrow> IReadFileResult option \<Rightarrow> 'w ChatgptProxyAPI \<Rightarrow>
     (error + string list) \<times> exchange list \<times> 'w ChatgptProxyAPI" where
  "run api env options fileResult this =
     (case userOptions_huskyGPTType options of
        Inl e \<Rightarrow> (Inl e, [], this)
      | Inr type \<Rightarrow>
          (case sendFileResult api env options fileResult this of
             (Inr res, t, this1) \<Rightarrow> (Inr res, t, this1)
           | (Inl error, t, this1) \<Rightarrow> (Inr [''[huskygpt] call OpenAI API failed!''], t, this1)))"

section \<open>The chat client\<close>




section \<open>Reading a run from its calls\<close>

text \<open>
  The functions of this section do not belong to the program: they state, on the list of
  calls that a run returns, what the specification says about it.
\<close>

definition countSite :: "callsite \<Rightarrow> exchange list \<Rightarrow> nat" where
  "countSite site t = length (filter (\<lambda>x. fst x = site) t)"

text \<open>The texts sent for the code prompts (line 119), in the order of the calls.\<close>

definition promptTexts :: "exchange list \<Rightarrow> string list" where
  "promptTexts t = map (\<lambda>x. req_text (fst (snd x))) (filter (\<lambda>x. fst x = SendPrompt) t)"

text \<open>The number of replies to code prompts whose text asks for a continuation.\<close>

definition truncatedReply :: "exchange \<Rightarrow> bool" where
  "truncatedReply x =
     (fst x = SendPrompt \<and>
      (case snd (snd x) of Inl e \<Rightarrow> False | Inr m \<Rightarrow> needsContinuation (msg_text m)))"

text \<open>
  The conversation cursor after a call: a reply sets it, the reply to a continuation is
  merged into it, a rejection leaves it.
\<close>

definition cursorStep :: "ChatMessage option \<Rightarrow> exchange \<Rightarrow> ChatMessage option" where
  "cursorStep cursor x =
     (case snd (snd x) of
        Inl e \<Rightarrow> cursor
      | Inr m \<Rightarrow>
          if fst x = SendContinue then map_option (\<lambda>res. mergeMessage res m) cursor else Some m)"

definition cursorAfter :: "ChatMessage option \<Rightarrow> exchange list \<Rightarrow> ChatMessage option" where
  "cursorAfter cursor t = foldl cursorStep cursor t"

text \<open>
  A request carries the cursor as its parent context: without a cursor it has no options,
  with a cursor its options name the cursor's conversation and message.
\<close>

definition carriesCursor :: "ChatMessage option \<Rightarrow> request \<Rightarrow> bool" where
  "carriesCursor cursor rq =
     (case cursor of
        None \<Rightarrow> req_options rq = None
      | Some m \<Rightarrow>
          (case req_options rq of
             None \<Rightarrow> False
           | Some opts \<Rightarrow>
               conversationId opts = read (msg_conversationId m) \<and>
               parentMessageId opts = Some (msg_id m)))"

fun wellChained :: "ChatMessage option \<Rightarrow> exchange list \<Rightarrow> bool" where
  "wellChained cursor [] = True"
| "wellChained cursor (x # t) =
     (carriesCursor cursor (fst (snd x)) \<and> wellChained (cursorStep cursor x) t)"

text \<open>The texts sent as first messages (line 101), in the order of the calls.\<close>

definition firstTexts :: "exchange list \<Rightarrow> string list" where
  "firstTexts t = map (\<lambda>x. req_text (fst (snd x))) (filter (\<lambda>x. fst x = SendFirst) t)"

text \<open>
  Continuations stand where they are due: the call right after a truncated reply is a
  continuation with the text \<^verbatim>\<open>continue\<close>, and no other call is a continuation. The flag
  says whether a continuation is due at the head of the list.
\<close>

fun continuationsFollow :: "bool \<Rightarrow> exchange list \<Rightarrow> bool" where
  "continuationsFollow due [] = True"
| "continuationsFollow due (x # t) =
     ((if due then fst x = SendContinue \<and> req_text (fst (snd x)) = ''continue''
       else fst x \<noteq> SendContinue) \<and>
      continuationsFollow (truncatedReply x) t)"

text \<open>Whether a continuation is still due after the calls of a list.\<close>

definition continuationDue :: "bool \<Rightarrow> exchange list \<Rightarrow> bool" where
  "continuationDue due t = foldl (\<lambda>d x. truncatedReply x) due t"

text \<open>
  The reply texts of a run: one per answered code prompt, the reply to a continuation
  appended to the text before it; the reply to the first message gives none.
\<close>

definition addReply :: "string list \<Rightarrow> exchange \<Rightarrow> string list" where
  "addReply texts x =
     (case snd (snd x) of
        Inl e \<Rightarrow> texts
      | Inr m \<Rightarrow>
          (case fst x of
             SendFirst \<Rightarrow> texts
           | SendPrompt \<Rightarrow> texts @ [msg_text m]
           | SendContinue \<Rightarrow>
               if texts = [] then [msg_text m] else butlast texts @ [last texts @ msg_text m]))"

definition replyTexts :: "exchange list \<Rightarrow> string list" where
  "replyTexts t = foldl addReply [] t"

text \<open>A rejected call is the last call, and its error is the outcome.\<close>

fun stopsAtFailure :: "error + 'a \<Rightarrow> exchange list \<Rightarrow> bool" where
  "stopsAtFailure r [] = True"
| "stopsAtFailure r (x # t) =
     (case snd (snd x) of Inl e \<Rightarrow> t = [] \<and> r = Inl e | Inr m \<Rightarrow> stopsAtFailure r t)"

definition allAnswered :: "exchange list \<Rightarrow> bool" where
  "allAnswered t = list_all (\<lambda>x. case snd (snd x) of Inl e \<Rightarrow> False | Inr m \<Rightarrow> True) t"

text \<open>A request with the five-minute bound and a signal that is not aborted.\<close>

definition bounded :: "request \<Rightarrow> bool" where
  "bounded rq =
     (case req_options rq of
        None \<Rightarrow> False
      | Some opts \<Rightarrow> timeoutMs opts = 300000 \<and> \<not> aborted (abortSignal opts))"



section \<open>A scripted API and collaborators for the examples\<close>

text \<open>The API that gives the replies of a list, one per request, and then rejects.\<close>

fun scripted :: "(error + ChatMessage) list api" where
  "scripted [] rq = (Inl (Rejected ''no reply left''), [])"
| "scripted (reply # rest) rq = (reply, rest)"

definition lowerCase :: "char \<Rightarrow> char" where
  "lowerCase c =
     (let n = (of_char c :: nat) in if 65 \<le> n \<and> n \<le> 90 then char_of (n + 32) else c)"

text \<open>
  \<^verbatim>\<open>new RegExp(source, 'gi')\<close> for a source made of word characters only: it matches the
  source itself, whatever the case of the letters. Other sources get no matcher here.
\<close>

definition wordRegExp :: "string \<Rightarrow> matcher option" where
  "wordRegExp source =
     (if list_all isWordChar source
      then Some (\<lambda>pre rest.
        if map lowerCase (take (length source) rest) = map lowerCase source
        then Some (length source) else None)
      else None)"

definition fence :: string where
  "fence = [backtick, backtick, backtick]"

text \<open>
  A file with two code units \<open>f\<close> and \<open>g\<close>, the task kind \<open>Test\<close>, and a session with no
  retained message.
\<close>

definition demoEnv :: collaborators where
  "demoEnv =
     \<lparr>files = (\<lambda>p. None),
      readPromptFile = (\<lambda>name. Inr ''write tests''),
      pickFunctionOrClassCodeArray = (\<lambda>content. if content = ''fg'' then Inr [''f'', ''g''] else Inr []),
      newRegExp = wordRegExp\<rparr>"

definition demoOptions :: IUserOptions where
  "demoOptions = \<lparr>huskyGPTType = Some Test, securityRegex = None, openAIPrompt = None\<rparr>"

definition demoFile :: IReadFileResult where
  "demoFile = \<lparr>filePath = None, fileContent = Some ''fg''\<rparr>"

definition demoMessage :: "string \<Rightarrow> string \<Rightarrow> string \<Rightarrow> ChatMessage" where
  "demoMessage i c txt =
     \<lparr>msg_id = i, msg_text = txt, msg_conversationId = Value c, msg_parentMessageId = Undefined\<rparr>"

definition demoSession :: "(error + ChatMessage) list \<Rightarrow> (error + ChatMessage) list ChatgptProxyAPI" where
  "demoSession replies = \<lparr>parentMessage = None, remote = replies\<rparr>"

definition demoRun ::
  "IUserOptions \<Rightarrow> (error + ChatMessage) list \<Rightarrow>
     (error + string list) \<times> exchange list \<times> (error + ChatMessage) list ChatgptProxyAPI" where
  "demoRun options replies =
     sendFileResult scripted demoEnv options (Some demoFile) (demoSession replies)"

text \<open>A previous message, two lists of replies, and options with a security pattern.\<close>

definition demoPrev :: PrevMessage where
  "demoPrev = \<lparr>prev_conversationId = Some ''c0'', prev_parentMessageId = Some ''m0''\<rparr>"

definition demoReplies :: "(error + ChatMessage) list" where
  "demoReplies = [Inr (demoMessage ''m0'' ''c0'' ''hello''),
        Inr (demoMessage ''m1'' ''c1'' (fence @ ''A'')), Inr (demoMessage ''m2'' ''c2'' ''B''),
        Inr (demoMessage ''m3'' ''c3'' ''C'')]"

definition truncatedReplies :: "(error + ChatMessage) list" where
  "truncatedReplies = [Inr (demoMessage ''m0'' ''c0'' ''hello''),
        Inr (demoMessage ''m1'' ''c1'' fence), Inr (demoMessage ''m2'' ''c2'' ''x''),
        Inr (demoMessage ''m3'' ''c3'' fence), Inr (demoMessage ''m4'' ''c4'' ''y'')]"

definition tinOptions :: IUserOptions where
  "tinOptions = \<lparr>huskyGPTType = Some Test, securityRegex = Some ''tin'', openAIPrompt = None\<rparr>"

text \<open>A reply that has no \<^verbatim>\<open>conversationId\<close> property.\<close>

definition bareMessage :: "string \<Rightarrow> string \<Rightarrow> ChatMessage" where
  "bareMessage i txt =
     \<lparr>msg_id = i, msg_text = txt, msg_conversationId = Absent, msg_parentMessageId = Undefined\<rparr>"




section \<open>Continuation detection\<close>

lemma countFence_not_backtick:
  "c \<noteq> backtick \<Longrightarrow> countFence (c # cs) = countFence cs"
  by simp

lemma isWordChar_not_backtick: "isWordChar c \<Longrightarrow> c \<noteq> backtick"
  by (auto simp: isWordChar_def backtick_def Let_def)

lemma countFence_dropWhile: "countFence (dropWhile isWordChar s) = countFence s"
proof (induction s)
  case Nil
  show ?case by simp
next
  case (Cons c s)
  show ?case
  proof (cases "isWordChar c")
    case True
    then have "countFence (c # s) = countFence s"
      using isWordChar_not_backtick countFence_not_backtick by blast
    with True Cons show ?thesis by simp
  next
    case False
    then show ?thesis by simp
  qed
qed

lemma drop_takeWhile_length: "drop (length (takeWhile P s)) s = dropWhile P s"
  by (induction s) auto

lemma matched_fences:
  "length (concat (map (\<lambda>g. case g of Kept c \<Rightarrow> [] | Matched x \<Rightarrow> [x])
     (segments codeBlocksMdSymbolRegex pre s))) = countFence s"
proof (induction s arbitrary: pre rule: length_induct)
  case (1 s)
  show ?case
  proof (cases s)
    case Nil
    then show ?thesis by (simp add: codeBlocksMdSymbolRegex_def)
  next
    case (Cons c cs)
    show ?thesis
    proof (cases "take 3 (c # cs) = [backtick, backtick, backtick]")
      case False
      have "length cs < length s" using Cons by simp
      with 1 have ih: "length (concat (map (\<lambda>g. case g of Kept c \<Rightarrow> [] | Matched x \<Rightarrow> [x])
          (segments codeBlocksMdSymbolRegex (pre @ [c]) cs))) = countFence cs"
        by blast
      have m: "codeBlocksMdSymbolRegex pre (c # cs) = None"
        using False unfolding codeBlocksMdSymbolRegex_def by (rule if_not_P)
      have "segments codeBlocksMdSymbolRegex pre (c # cs) =
          Kept c # segments codeBlocksMdSymbolRegex (pre @ [c]) cs"
        by (simp only: segments.simps m option.case)
      moreover have "countFence (c # cs) = countFence cs"
        using False by (simp only: countFence.simps if_False)
      ultimately show ?thesis using ih Cons by simp
    next
      case True
      let ?n = "3 + length (takeWhile isWordChar (drop 3 (c # cs)))"
      let ?rest = "drop ?n (c # cs)"
      have "?rest = drop (length (takeWhile isWordChar (drop 3 (c # cs)))) (drop 3 (c # cs))"
        by (simp only: drop_drop add.commute)
      then have rest: "?rest = dropWhile isWordChar (drop 3 (c # cs))"
        by (simp only: drop_takeWhile_length)
      have "length ?rest < length s" using Cons by simp
      with 1 have ih: "length (concat (map (\<lambda>g. case g of Kept c \<Rightarrow> [] | Matched x \<Rightarrow> [x])
          (segments codeBlocksMdSymbolRegex (pre @ take ?n (c # cs)) ?rest))) = countFence ?rest"
        by blast
      have m: "codeBlocksMdSymbolRegex pre (c # cs) = Some ?n"
        using True unfolding codeBlocksMdSymbolRegex_def by (rule if_P)
      have "?n \<noteq> 0" by simp
      then have "segments codeBlocksMdSymbolRegex pre (c # cs) =
          Matched (take ?n (c # cs)) # segments codeBlocksMdSymbolRegex (pre @ take ?n (c # cs)) ?rest"
        by (simp only: segments.simps m option.case if_False)
      then have "length (concat (map (\<lambda>g. case g of Kept c \<Rightarrow> [] | Matched x \<Rightarrow> [x])
          (segments codeBlocksMdSymbolRegex pre (c # cs)))) = Suc (countFence ?rest)"
        using ih by simp
      also have "countFence ?rest = countFence (drop 3 (c # cs))"
        unfolding rest by (rule countFence_dropWhile)
      also have "Suc (countFence (drop 3 (c # cs))) = countFence (c # cs)"
        by (subst countFence.simps(2)) (simp only: True simp_thms if_True)
      finally show ?thesis using Cons by simp
    qed
  qed
qed

text \<open>
  C1. For every string, the continuation check is true exactly when the number of
  occurrences of the fence marker in it is odd.
\<close>

theorem needsContinuation_iff_odd_fences:
  "needsContinuation s = odd (countFence s)"
  by (simp add: needsContinuation_def js_match_def matched_fences odd_iff_mod_2_eq_one)

theorem needsContinuation_iff_odd_fences_witness:
  "needsContinuation (fence @ ''ts'') \<and> \<not> needsContinuation ''no fence'' \<and>
   \<not> needsContinuation (fence @ ''ts'' @ fence)"
proof -
  have "odd (countFence (fence @ ''ts''))" "\<not> odd (countFence ''no fence'')"
    "\<not> odd (countFence (fence @ ''ts'' @ fence))"
    by code_simp+
  then show ?thesis
    using needsContinuation_iff_odd_fences by blast
qed

section \<open>The calls of one message\<close>

lemma sendMessage_prev_cases:
  assumes "sendMessage api env options prompt (Some prev) this = (r, t, this')"
  obtains
    (blocked) e where "r = Inl e" "t = []" "this' = this"
  | (rejected) sp e w where "securityPrompt env options prompt = Inr sp"
      "r = Inl e" "t = [(SendPrompt, \<lparr>req_text = sp, req_options = Some (sendOptions prev)\<rparr>, Inl e)]"
      "this' = this\<lparr>remote := w\<rparr>"
  | (answered) sp res w where "securityPrompt env options prompt = Inr sp"
      "\<not> needsContinuation (msg_text res)"
      "r = Inr res" "t = [(SendPrompt, \<lparr>req_text = sp, req_options = Some (sendOptions prev)\<rparr>, Inr res)]"
      "this' = this\<lparr>remote := w\<rparr>"
  | (continued) sp res reply w' where "securityPrompt env options prompt = Inr sp"
      "needsContinuation (msg_text res)"
      "r = map_sum id (mergeMessage res) reply"
      "t = [(SendPrompt, \<lparr>req_text = sp, req_options = Some (sendOptions prev)\<rparr>, Inr res),
            (SendContinue, \<lparr>req_text = ''continue'', req_options = Some ((sendOptions prev)
           \<lparr>conversationId := read (msg_conversationId res), parentMessageId := Some (msg_id res)\<rparr>)\<rparr>, reply)]"
      "this' = this\<lparr>remote := w'\<rparr>"
  using assms
  unfolding sendMessage_def callApi_def
  by (auto split: sum.splits option.splits prod.splits if_splits)

lemma countSite_append: "countSite s (a @ b) = countSite s a + countSite s b"
  by (simp add: countSite_def)

lemma promptTexts_append: "promptTexts (a @ b) = promptTexts a @ promptTexts b"
  by (simp add: promptTexts_def)

lemma cursorAfter_append: "cursorAfter c (a @ b) = cursorAfter (cursorAfter c a) b"
  by (simp add: cursorAfter_def)

lemma wellChained_append:
  "wellChained c (a @ b) = (wellChained c a \<and> wellChained (cursorAfter c a) b)"
  by (induction a arbitrary: c) (auto simp: cursorAfter_def)

lemma allAnswered_append: "allAnswered (a @ b) = (allAnswered a \<and> allAnswered b)"
  by (simp add: allAnswered_def)

lemma stopsAtFailure_append:
  "allAnswered a \<Longrightarrow> stopsAtFailure r (a @ b) = stopsAtFailure r b"
  by (induction a) (auto simp: allAnswered_def split: sum.splits)

text \<open>One call of \<^verbatim>\<open>sendMessage\<close> for a code prompt, with the cursor as its parent.\<close>

lemma sendMessage_step:
  assumes "sendMessage api env options prompt
     (Some \<lparr>prev_conversationId = read (msg_conversationId message),
            prev_parentMessageId = Some (msg_id message)\<rparr>) this = (r, t, this')"
  shows "parentMessage this' = parentMessage this"
    and "wellChained (Some message) t"
    and "stopsAtFailure r t"
    and "list_all (\<lambda>x. fst x \<noteq> SendFirst \<and> bounded (fst (snd x))) t"
    and "countSite SendFirst t = 0"
    and "countSite SendContinue t = length (filter truncatedReply t)"
    and "countSite SendContinue t \<le> countSite SendPrompt t"
    and "countSite SendPrompt t \<le> 1"
    and "map Inr (promptTexts t) = take (length (promptTexts t)) [securityPrompt env options prompt]"
  using assms
  by (cases rule: sendMessage_prev_cases;
      auto simp: carriesCursor_def cursorStep_def sendOptions_def bounded_def countSite_def
        truncatedReply_def promptTexts_def split: sum.splits)+

lemma sendMessage_step_ok:
  assumes "sendMessage api env options prompt
     (Some \<lparr>prev_conversationId = read (msg_conversationId message),
            prev_parentMessageId = Some (msg_id message)\<rparr>) this = (Inr m, t, this')"
  shows "cursorAfter (Some message) t = Some m"
    and "allAnswered t"
    and "foldl addReply acc t = acc @ [msg_text m]"
    and "map Inr (promptTexts t) = [securityPrompt env options prompt]"
    and "countSite SendPrompt t = 1"
  using assms
  by (cases rule: sendMessage_prev_cases;
      auto simp: cursorAfter_def cursorStep_def allAnswered_def addReply_def countSite_def
        promptTexts_def mergeMessage_def split: sum.splits)+

section \<open>The calls of the loop\<close>

lemma stopsAtFailure_Inl:
  "stopsAtFailure (Inl e :: error + 'a) t \<Longrightarrow> stopsAtFailure (Inl e :: error + 'b) t"
  by (induction t) (auto split: sum.splits)

lemma sendCodePrompts_trace:
  "sendCodePrompts api env options ps message acc this = (r, t, this') \<Longrightarrow>
     wellChained (Some message) t \<and> stopsAtFailure r t \<and>
     list_all (\<lambda>x. fst x \<noteq> SendFirst \<and> bounded (fst (snd x))) t \<and>
     countSite SendFirst t = 0 \<and>
     countSite SendContinue t = length (filter truncatedReply t) \<and>
     countSite SendContinue t \<le> countSite SendPrompt t \<and>
     countSite SendPrompt t \<le> length ps \<and>
     map Inr (promptTexts t) = map (securityPrompt env options) (take (length (promptTexts t)) ps)"
proof (induction ps arbitrary: message acc this r t this')
  case Nil
  then show ?case by (simp add: countSite_def promptTexts_def)
next
  case (Cons p ps)
  obtain r1 t1 this1 where s: "sendMessage api env options p
     (Some \<lparr>prev_conversationId = read (msg_conversationId message),
            prev_parentMessageId = Some (msg_id message)\<rparr>) this = (r1, t1, this1)"
    by (metis prod_cases3)
  note st = sendMessage_step [OF s]
  show ?case
  proof (cases r1)
    case (Inl e)
    with Cons.prems s have eq: "r = Inl e" "t = t1" by simp_all
    have stop: "stopsAtFailure (Inl e :: error + string list) t1"
      using st(3) unfolding Inl by (rule stopsAtFailure_Inl)
    have "length (promptTexts t1) \<le> 1"
      using st(8) by (simp add: countSite_def promptTexts_def)
    then have "take (length (promptTexts t1)) [securityPrompt env options p] =
        map (securityPrompt env options) (take (length (promptTexts t1)) (p # ps))"
      by (cases "length (promptTexts t1)") simp_all
    with st(1,2,4-) stop show ?thesis unfolding eq by simp
  next
    case (Inr m)
    obtain r2 t2 this2 where l: "sendCodePrompts api env options ps m (acc @ [msg_text m])
        (this1\<lparr>parentMessage := Some m\<rparr>) = (r2, t2, this2)"
      by (metis prod_cases3)
    from Cons.prems s Inr l have eq: "r = r2" "t = t1 @ t2" by simp_all
    note ok = sendMessage_step_ok [OF s [unfolded Inr]]
    note ih = Cons.IH [OF l]
    have len: "length (promptTexts t1) = 1"
      using ok(5) by (simp add: countSite_def promptTexts_def)
    show ?thesis
      unfolding eq
      using st ok(1,2,4) ih len
      by (simp add: wellChained_append stopsAtFailure_append countSite_append promptTexts_append)
  qed
qed

lemma sendCodePrompts_ok:
  "sendCodePrompts api env options ps message acc this = (Inr msgs, t, this') \<Longrightarrow>
     msgs = foldl addReply acc t \<and> length msgs = length acc + length ps \<and> allAnswered t \<and>
     map Inr (promptTexts t) = map (securityPrompt env options) ps \<and>
     countSite SendPrompt t = length ps \<and>
     cursorAfter (Some message) t \<noteq> None \<and>
     parentMessage this' = (if ps = [] then parentMessage this else cursorAfter (Some message) t)"
proof (induction ps arbitrary: message acc this t this')
  case Nil
  then show ?case by (auto simp: countSite_def promptTexts_def allAnswered_def cursorAfter_def)
next
  case (Cons p ps)
  obtain r1 t1 this1 where s: "sendMessage api env options p
     (Some \<lparr>prev_conversationId = read (msg_conversationId message),
            prev_parentMessageId = Some (msg_id message)\<rparr>) this = (r1, t1, this1)"
    by (metis prod_cases3)
  from Cons.prems s obtain m where Inr: "r1 = Inr m"
    by (cases r1) simp_all
  obtain r2 t2 this2 where l: "sendCodePrompts api env options ps m (acc @ [msg_text m])
      (this1\<lparr>parentMessage := Some m\<rparr>) = (r2, t2, this2)"
    by (metis prod_cases3)
  from Cons.prems s Inr l have eq: "r2 = Inr msgs" "t = t1 @ t2" "this' = this2" by simp_all
  note ok = sendMessage_step_ok [OF s [unfolded Inr]]
  note ih = Cons.IH [OF l [unfolded eq(1)]]
  have c: "cursorAfter (Some m) t2 = Some m" if "ps = []"
    using that l by (simp add: cursorAfter_def)
  show ?case
    unfolding eq
    using ok(1,2,4,5) ok(3) [of acc] ih c
    by (auto simp: allAnswered_append countSite_append promptTexts_append cursorAfter_append)
qed

section \<open>The calls of a pass over a file\<close>

lemma sendMessage_first_cases:
  assumes "sendMessage api env options prompt None this = (r, t, this')"
  obtains
    (blocked) e where "securityPrompt env options prompt = Inl e" "r = Inl e" "t = []" "this' = this"
  | (sent) sp w where "securityPrompt env options prompt = Inr sp"
      "t = [(SendFirst, \<lparr>req_text = sp, req_options = None\<rparr>, r)]" "this' = this\<lparr>remote := w\<rparr>"
  using assms
  unfolding sendMessage_def callApi_def
  by (auto split: sum.splits prod.splits)

lemma length_by_site:
  "length t = countSite SendFirst t + countSite SendPrompt t + countSite SendContinue t"
proof (induction t)
  case Nil
  show ?case by (simp add: countSite_def)
next
  case (Cons x t)
  then show ?case by (cases "fst x") (simp_all add: countSite_def)
qed

text \<open>The pass over a file that has code prompts.\<close>

lemma sendFileResult_cases:
  assumes "promptSet env options fr = Inr (sys # cps)" "cps \<noteq> []"
    and "sendFileResult api env options fr this = (r, t, this')"
  obtains
    (retained) m where "parentMessage this = Some m"
      "sendCodePrompts api env options cps m [] this = (r, t, this')"
  | (blocked) e where "parentMessage this = None" "r = Inl e" "t = []" "this' = this"
  | (rejected) sp e w where "parentMessage this = None" "securityPrompt env options sys = Inr sp"
      "r = Inl e" "t = [(SendFirst, \<lparr>req_text = sp, req_options = None\<rparr>, Inl e)]"
      "this' = this\<lparr>remote := w\<rparr>"
  | (started) sp m w t' where "parentMessage this = None" "securityPrompt env options sys = Inr sp"
      "t = (SendFirst, \<lparr>req_text = sp, req_options = None\<rparr>, Inr m) # t'"
      "sendCodePrompts api env options cps m [] (this\<lparr>remote := w\<rparr>) = (r, t', this')"
proof (cases "parentMessage this")
  case (Some m)
  with assms have "sendCodePrompts api env options cps m [] this = (r, t, this')"
    by (auto simp: sendFileResult_def split: prod.splits)
  with Some show ?thesis by (rule retained)
next
  case None
  obtain r0 t0 this0 where s: "sendMessage api env options sys None this = (r0, t0, this0)"
    by (metis prod_cases3)
  show ?thesis
  proof (cases r0)
    case (Inl e)
    with assms None s have eq: "r = Inl e" "t = t0" "this' = this0"
      by (simp_all add: sendFileResult_def)
    from s show ?thesis
    proof (cases rule: sendMessage_first_cases)
      case (blocked e')
      with eq Inl None show ?thesis using that(2) by simp
    next
      case (sent sp w)
      with eq Inl None show ?thesis using that(3) by simp
    qed
  next
    case (Inr m)
    obtain r1 t1 this1 where l: "sendCodePrompts api env options cps m [] this0 = (r1, t1, this1)"
      by (metis prod_cases3)
    with assms None s Inr have eq: "r = r1" "t = t0 @ t1" "this' = this1"
      by (simp_all add: sendFileResult_def)
    from s show ?thesis
    proof (cases rule: sendMessage_first_cases)
      case (blocked e')
      with Inr show ?thesis by simp
    next
      case (sent sp w)
      with eq Inr None l show ?thesis using that(4) by simp
    qed
  qed
qed

lemma sendFileResult_trace:
  assumes "promptSet env options fr = Inr (sys # cps)"
    and "sendFileResult api env options fr this = (r, t, this')"
  shows "wellChained (parentMessage this) t"
    and "stopsAtFailure r t"
    and "list_all (\<lambda>x. bounded (fst (snd x))) (filter (\<lambda>x. fst x \<noteq> SendFirst) t)"
    and "list_all (\<lambda>x. req_options (fst (snd x)) = None) (filter (\<lambda>x. fst x = SendFirst) t)"
    and "countSite SendContinue t = length (filter truncatedReply t)"
    and "countSite SendContinue t \<le> countSite SendPrompt t"
    and "countSite SendPrompt t \<le> length cps"
    and "map Inr (promptTexts t) = map (securityPrompt env options) (take (countSite SendPrompt t) cps)"
proof -
  have all: "wellChained (parentMessage this) t \<and> stopsAtFailure r t \<and>
    list_all (\<lambda>x. bounded (fst (snd x))) (filter (\<lambda>x. fst x \<noteq> SendFirst) t) \<and>
    list_all (\<lambda>x. req_options (fst (snd x)) = None) (filter (\<lambda>x. fst x = SendFirst) t) \<and>
    countSite SendContinue t = length (filter truncatedReply t) \<and>
    countSite SendContinue t \<le> countSite SendPrompt t \<and>
    countSite SendPrompt t \<le> length cps \<and>
    map Inr (promptTexts t) = map (securityPrompt env options) (take (countSite SendPrompt t) cps)"
  proof (cases "cps = []")
    case True
    with assms have "t = []" by (simp add: sendFileResult_def)
    then show ?thesis by (simp add: countSite_def promptTexts_def)
  next
    case False
    have len: "length (promptTexts u) = countSite SendPrompt u" for u
      by (simp add: promptTexts_def countSite_def)
    have nofirst: "filter (\<lambda>x. fst x = SendFirst) u = []" "filter (\<lambda>x. fst x \<noteq> SendFirst) u = u"
      if "list_all (\<lambda>x. fst x \<noteq> SendFirst \<and> bounded (fst (snd x))) u" for u
      using that by (induction u) auto
    have bnd: "list_all (\<lambda>x. bounded (fst (snd x))) u"
      if "list_all (\<lambda>x. fst x \<noteq> SendFirst \<and> bounded (fst (snd x))) u" for u
      using that by (induction u) auto
    from assms(1) False assms(2) show ?thesis
    proof (cases rule: sendFileResult_cases)
      case (retained m)
      note tr = sendCodePrompts_trace [OF retained(2)]
      with retained(1) nofirst [of t] bnd [of t] show ?thesis by (simp add: len)
    next
      case (blocked e)
      then show ?thesis by (simp add: countSite_def promptTexts_def)
    next
      case (rejected sp e w)
      then show ?thesis
        by (simp add: countSite_def promptTexts_def carriesCursor_def truncatedReply_def)
    next
      case (started sp m w t')
      note tr = sendCodePrompts_trace [OF started(4)]
      have "countSite SendPrompt t = countSite SendPrompt t'" "countSite SendContinue t = countSite SendContinue t'"
        "promptTexts t = promptTexts t'" "filter truncatedReply t = filter truncatedReply t'"
        using started(3) by (simp_all add: countSite_def promptTexts_def truncatedReply_def)
      with tr started(1,3) nofirst [of t'] bnd [of t'] show ?thesis
        by (simp add: len carriesCursor_def cursorStep_def)
    qed
  qed
  from all show "wellChained (parentMessage this) t" by simp
  from all show "stopsAtFailure r t" by simp
  from all show "list_all (\<lambda>x. bounded (fst (snd x))) (filter (\<lambda>x. fst x \<noteq> SendFirst) t)" by simp
  from all show "list_all (\<lambda>x. req_options (fst (snd x)) = None) (filter (\<lambda>x. fst x = SendFirst) t)" by simp
  from all show "countSite SendContinue t = length (filter truncatedReply t)" by simp
  from all show "countSite SendContinue t \<le> countSite SendPrompt t" by simp
  from all show "countSite SendPrompt t \<le> length cps" by simp
  from all show "map Inr (promptTexts t) = map (securityPrompt env options) (take (countSite SendPrompt t) cps)" by simp
qed

lemma addReply_skips_first:
  "foldl addReply acc (filter (\<lambda>x. fst x \<noteq> SendFirst) t) = foldl addReply acc t"
proof (induction t arbitrary: acc)
  case Nil
  show ?case by simp
next
  case (Cons x t)
  then show ?case by (cases "fst x") (auto simp: addReply_def split: sum.splits)
qed

lemma sendCodePrompts_ok':
  assumes "sendCodePrompts api env options ps message acc this = (Inr msgs, t, this')"
  shows "msgs = foldl addReply acc t"
    and "length msgs = length acc + length ps"
    and "allAnswered t"
    and "countSite SendPrompt t = length ps"
    and "ps \<noteq> [] \<Longrightarrow> parentMessage this' = cursorAfter (Some message) t"
    and "cursorAfter (Some message) t \<noteq> None"
  using sendCodePrompts_ok [OF assms] by (blast, blast, blast, blast, presburger, blast)

lemma sendFileResult_ok:
  assumes "promptSet env options fr = Inr (sys # cps)" "cps \<noteq> []"
    and "sendFileResult api env options fr this = (Inr msgs, t, this')"
  shows "msgs = replyTexts t"
    and "length msgs = length cps"
    and "allAnswered t"
    and "countSite SendPrompt t = length cps"
    and "countSite SendFirst t = (case parentMessage this of None \<Rightarrow> 1 | Some m \<Rightarrow> 0)"
    and "parentMessage this' = cursorAfter (parentMessage this) t"
    and "parentMessage this' \<noteq> None"
proof -
  have "msgs = replyTexts t \<and> length msgs = length cps \<and> allAnswered t \<and>
    countSite SendPrompt t = length cps \<and>
    countSite SendFirst t = (case parentMessage this of None \<Rightarrow> 1 | Some m \<Rightarrow> 0) \<and>
    parentMessage this' = cursorAfter (parentMessage this) t \<and> parentMessage this' \<noteq> None"
    using assms
  proof (cases rule: sendFileResult_cases)
    case (retained m)
    note ok = sendCodePrompts_ok' [OF retained(2)]
    note tr = sendCodePrompts_trace [OF retained(2)]
    have "msgs = replyTexts t" using ok(1) by (simp add: replyTexts_def)
    moreover have "length msgs = length cps" using ok(2) by simp
    moreover have "countSite SendFirst t = (case parentMessage this of None \<Rightarrow> 1 | Some m \<Rightarrow> 0)"
      using tr retained(1) by simp
    moreover have "parentMessage this' = cursorAfter (parentMessage this) t"
      using ok(5) assms(2) retained(1) by simp
    moreover have "parentMessage this' \<noteq> None"
      using ok(5,6) assms(2) by simp
    ultimately show ?thesis using ok(3,4) by blast
  next
    case (started sp m w t')
    note ok = sendCodePrompts_ok' [OF started(4)]
    note tr = sendCodePrompts_trace [OF started(4)]
    have "replyTexts t = foldl addReply [] t'"
      using started(3) by (simp add: replyTexts_def addReply_def)
    then have "msgs = replyTexts t" using ok(1) by simp
    moreover have "length msgs = length cps" using ok(2) by simp
    moreover have "allAnswered t" using ok(3) started(3) by (simp add: allAnswered_def)
    moreover have "countSite SendPrompt t = length cps"
      using ok(4) started(3) by (simp add: countSite_def)
    moreover have "countSite SendFirst t = (case parentMessage this of None \<Rightarrow> 1 | Some m \<Rightarrow> 0)"
      using tr started(1,3) by (simp add: countSite_def)
    moreover have "cursorAfter (parentMessage this) t = cursorAfter (Some m) t'"
      using started(1,3) by (simp add: cursorAfter_def cursorStep_def)
    then have "parentMessage this' = cursorAfter (parentMessage this) t"
      using ok(5) assms(2) by simp
    moreover have "parentMessage this' \<noteq> None"
      using ok(5,6) assms(2) by simp
    ultimately show ?thesis by blast
  qed simp_all
  then show "msgs = replyTexts t"
    and "length msgs = length cps"
    and "allAnswered t"
    and "countSite SendPrompt t = length cps"
    and "countSite SendFirst t = (case parentMessage this of None \<Rightarrow> 1 | Some m \<Rightarrow> 0)"
    and "parentMessage this' = cursorAfter (parentMessage this) t"
    and "parentMessage this' \<noteq> None"
    by blast+
qed

section \<open>Auxiliary facts\<close>

lemma demoRun_promptSet:
  "promptSet demoEnv demoOptions (Some demoFile) =
      Inr (basePrompt ''write tests'' demoOptions # [''f'', ''g''])"
  by code_simp

lemma demoRun_eq:
  "sendFileResult scripted demoEnv options (Some demoFile) (demoSession replies) =
     (fst (demoRun options replies), fst (snd (demoRun options replies)), snd (snd (demoRun options replies)))"
  by (simp add: demoRun_def)

lemma stopsAtFailure_mid:
  "stopsAtFailure r (t1 @ (site, rq, Inl e) # t2) \<Longrightarrow> t2 = [] \<and> r = Inl e"
  by (induction t1) (auto split: sum.splits)

lemma promptSet_getter:
  "promptSet env options fileResult = Inr ps \<Longrightarrow> \<exists>ty. userOptions_huskyGPTType options = Inr ty"
  by (cases "userOptions_huskyGPTType options") (simp_all add: promptSet_def generatePrompt_def)

lemma segments_partition:
  "concat (map (\<lambda>g. case g of Kept c \<Rightarrow> [c] | Matched x \<Rightarrow> x) (segments m pre s)) = s"
proof (induction m pre s rule: segments.induct)
  case (1 m pre)
  show ?case by (simp split: option.splits)
next
  case (2 m pre c cs)
  show ?case
  proof (cases "m pre (c # cs)")
    case None
    with 2 show ?thesis by simp
  next
    case (Some n)
    show ?thesis
    proof (cases "n = 0")
      case True
      with Some 2 show ?thesis by simp
    next
      case False
      with Some 2(3) have "concat (map (\<lambda>g. case g of Kept c \<Rightarrow> [c] | Matched x \<Rightarrow> x)
          (segments m (pre @ take n (c # cs)) (drop n (c # cs)))) = drop n (c # cs)"
        by blast
      with Some False have "concat (map (\<lambda>g. case g of Kept c \<Rightarrow> [c] | Matched x \<Rightarrow> x)
          (segments m pre (c # cs))) = take n (c # cs) @ drop n (c # cs)"
        by (simp del: take_Suc_Cons drop_Suc_Cons)
      then show ?thesis by (simp only: append_take_drop_id)
    qed
  qed
qed

lemma no_match_kept:
  "concat (map (\<lambda>g. case g of Kept c \<Rightarrow> [] | Matched x \<Rightarrow> [x]) gs) = [] \<Longrightarrow>
   concat (map (\<lambda>g. case g of Kept c \<Rightarrow> [c] | Matched x \<Rightarrow> r) gs) =
   concat (map (\<lambda>g. case g of Kept c \<Rightarrow> [c] | Matched x \<Rightarrow> x) gs)"
proof (induction gs)
  case Nil
  show ?case by simp
next
  case (Cons g gs)
  then show ?case by (cases g) simp_all
qed

lemma js_replace_no_match: "js_match m s = [] \<Longrightarrow> js_replace m s r = s"
  unfolding js_match_def js_replace_def
  using no_match_kept [of "segments m [] s" r] segments_partition [of m "[]" s] by simp

lemma continuationDue_append:
  "continuationDue d (a @ b) = continuationDue (continuationDue d a) b"
  by (simp add: continuationDue_def)

lemma continuationsFollow_append:
  "continuationsFollow d (a @ b) =
     (continuationsFollow d a \<and> continuationsFollow (continuationDue d a) b)"
  by (induction a arbitrary: d) (simp_all add: continuationDue_def)

lemma sendMessage_follows:
  assumes "sendMessage api env options prompt (Some prev) this = (r, t, this')"
  shows "continuationsFollow False t" and "\<not> continuationDue False t"
  using assms
  by (cases rule: sendMessage_prev_cases;
      simp add: continuationDue_def truncatedReply_def)+

lemma sendCodePrompts_follows:
  "sendCodePrompts api env options ps message acc this = (r, t, this') \<Longrightarrow>
     continuationsFollow False t \<and> \<not> continuationDue False t"
proof (induction ps arbitrary: message acc this r t this')
  case Nil
  then show ?case by (simp add: continuationDue_def)
next
  case (Cons p ps)
  obtain r1 t1 this1 where s: "sendMessage api env options p
     (Some \<lparr>prev_conversationId = read (msg_conversationId message),
            prev_parentMessageId = Some (msg_id message)\<rparr>) this = (r1, t1, this1)"
    by (metis prod_cases3)
  note f = sendMessage_follows [OF s]
  show ?case
  proof (cases r1)
    case (Inl e)
    with Cons.prems s have "t = t1" by simp
    with f show ?thesis by simp
  next
    case (Inr m)
    obtain r2 t2 this2 where l: "sendCodePrompts api env options ps m (acc @ [msg_text m])
        (this1\<lparr>parentMessage := Some m\<rparr>) = (r2, t2, this2)"
      by (metis prod_cases3)
    from Cons.prems s Inr l have "t = t1 @ t2" by simp
    with f Cons.IH [OF l] show ?thesis
      by (simp add: continuationsFollow_append continuationDue_append)
  qed
qed

lemma no_first_message:
  "list_all (\<lambda>x. fst x \<noteq> SendFirst \<and> bounded (fst (snd x))) t \<Longrightarrow>
     firstTexts t = [] \<and> list_all (\<lambda>x. fst x \<noteq> SendFirst) t"
  by (induction t) (auto simp: firstTexts_def)

text \<open>The first message and the places of the continuations in a pass that succeeds.\<close>

lemma sendFileResult_order:
  assumes "promptSet env options fr = Inr (sys # cps)" "cps \<noteq> []"
    and "sendFileResult api env options fr this = (Inr msgs, t, this')"
  shows "map Inr (firstTexts t) =
      (case parentMessage this of None \<Rightarrow> [securityPrompt env options sys] | Some m \<Rightarrow> [])"
    and "list_all (\<lambda>x. fst x \<noteq> SendFirst) (tl t)"
    and "continuationsFollow False t"
    and "\<not> continuationDue False t"
proof -
  have "map Inr (firstTexts t) =
      (case parentMessage this of None \<Rightarrow> [securityPrompt env options sys] | Some m \<Rightarrow> []) \<and>
    list_all (\<lambda>x. fst x \<noteq> SendFirst) (tl t) \<and> continuationsFollow False t \<and>
    \<not> continuationDue False t"
    using assms
  proof (cases rule: sendFileResult_cases)
    case (retained m)
    note tr = sendCodePrompts_trace [OF retained(2)]
    note nf = no_first_message [of t]
    have "list_all (\<lambda>x. fst x \<noteq> SendFirst) (tl t)"
      using tr nf by (cases t) simp_all
    with tr nf retained(1) sendCodePrompts_follows [OF retained(2)] show ?thesis by simp
  next
    case (started sp m w t')
    note tr = sendCodePrompts_trace [OF started(4)]
    note nf = no_first_message [of t']
    note fo = sendCodePrompts_follows [OF started(4)]
    have "firstTexts t = sp # firstTexts t'"
      using started(3) by (simp add: firstTexts_def)
    moreover have "continuationsFollow False t = continuationsFollow False t'"
      "continuationDue False t = continuationDue False t'"
      using started(3) by (simp_all add: truncatedReply_def continuationDue_def)
    ultimately show ?thesis using tr nf fo started(1,2,3) by simp
  qed simp_all
  then show "map Inr (firstTexts t) =
      (case parentMessage this of None \<Rightarrow> [securityPrompt env options sys] | Some m \<Rightarrow> [])"
    and "list_all (\<lambda>x. fst x \<noteq> SendFirst) (tl t)"
    and "continuationsFollow False t"
    and "\<not> continuationDue False t"
    by blast+
qed



section \<open>The claims about the session\<close>

subsection \<open>Merging a continuation\<close>

text \<open>
  C2, as amended. When the reply to a prompt asks for a continuation and the continuation
  is answered, \<^verbatim>\<open>sendMessage\<close> returns a message whose text is the first text followed by the
  second with nothing in between, and whose id is that of the continuation reply. Its
  conversation id is that of the continuation reply when this reply has the property, and
  that of the first reply when it has not: the spread takes from the continuation reply
  the properties that it has.
\<close>

theorem continuation_merge:
  assumes "securityPrompt env options prompt = Inr sp"
    and "userOptions_huskyGPTType options = Inr ty"
    and "api (remote this) \<lparr>req_text = sp, req_options = Some (sendOptions prev)\<rparr> = (Inr resMessage, w)"
    and "needsContinuation (msg_text resMessage)"
    and "api w \<lparr>req_text = ''continue'', req_options = Some ((sendOptions prev)
           \<lparr>conversationId := read (msg_conversationId resMessage),
            parentMessageId := Some (msg_id resMessage)\<rparr>)\<rparr> = (Inr nextMessage, w')"
  shows "\<exists>m t. sendMessage api env options prompt (Some prev) this = (Inr m, t, this\<lparr>remote := w'\<rparr>) \<and>
      msg_text m = msg_text resMessage @ msg_text nextMessage \<and>
      msg_id m = msg_id nextMessage \<and>
      (msg_conversationId nextMessage \<noteq> Absent \<longrightarrow>
         msg_conversationId m = msg_conversationId nextMessage) \<and>
      (msg_conversationId nextMessage = Absent \<longrightarrow>
         msg_conversationId m = msg_conversationId resMessage)"
  using assms
  by (auto simp: sendMessage_def callApi_def mergeMessage_def spread_def split: property.splits)

theorem continuation_merge_witness:
  "\<exists>m t. sendMessage scripted demoEnv demoOptions ''f''
        (Some \<lparr>prev_conversationId = Some ''c0'', prev_parentMessageId = Some ''m0''\<rparr>)
        (demoSession [Inr (demoMessage ''m1'' ''c1'' (fence @ ''A'')), Inr (demoMessage ''m2'' ''c2'' ''B'')]) =
        (Inr m, t, demoSession []) \<and>
      msg_text m = fence @ ''AB'' \<and> msg_id m = ''m2'' \<and> msg_conversationId m = Value ''c2''"
proof -
  let ?prev = "\<lparr>prev_conversationId = Some ''c0'', prev_parentMessageId = Some ''m0''\<rparr>"
  let ?s = "demoSession [Inr (demoMessage ''m1'' ''c1'' (fence @ ''A'')), Inr (demoMessage ''m2'' ''c2'' ''B'')]"
  have 1: "securityPrompt demoEnv demoOptions ''f'' = Inr ''f''" by code_simp
  have 2: "userOptions_huskyGPTType demoOptions = Inr Test" by code_simp
  have 3: "scripted (remote ?s) \<lparr>req_text = ''f'', req_options = Some (sendOptions ?prev)\<rparr> =
      (Inr (demoMessage ''m1'' ''c1'' (fence @ ''A'')), [Inr (demoMessage ''m2'' ''c2'' ''B'')])"
    by (simp add: demoSession_def)
  have 4: "needsContinuation (msg_text (demoMessage ''m1'' ''c1'' (fence @ ''A'')))" by code_simp
  have 5: "scripted [Inr (demoMessage ''m2'' ''c2'' ''B'')] \<lparr>req_text = ''continue'', req_options = Some ((sendOptions ?prev)
           \<lparr>conversationId := read (msg_conversationId (demoMessage ''m1'' ''c1'' (fence @ ''A''))),
            parentMessageId := Some (msg_id (demoMessage ''m1'' ''c1'' (fence @ ''A'')))\<rparr>)\<rparr> =
       (Inr (demoMessage ''m2'' ''c2'' ''B''), [])"
    by simp
  show ?thesis
    using continuation_merge [OF 1 2 3 4 5]
    by (simp add: demoMessage_def demoSession_def)
qed

text \<open>
  A continuation reply without a \<^verbatim>\<open>conversationId\<close>: the merged message reads the conversation
  of the first reply, the continuation reply reads none.
\<close>

theorem continuation_merge_counterexample:
  "map_sum id (\<lambda>m. (msg_id m, msg_text m, read (msg_conversationId m)))
     (fst (sendMessage scripted demoEnv demoOptions ''f'' (Some demoPrev)
        (demoSession [Inr (demoMessage ''m1'' ''c1'' (fence @ ''A'')), Inr (bareMessage ''m2'' ''B'')]))) =
     Inr (''m2'', fence @ ''AB'', Some ''c1'') \<and>
   read (msg_conversationId (bareMessage ''m2'' ''B'')) = None"
  by code_simp

subsection \<open>Chaining\<close>

text \<open>
  C3, as amended. A pass that succeeds on \<open>N > 0\<close> code prompts sends them in order, one
  request each. The call right after a reply that asks for a continuation is a
  continuation, no other call is one, and there are at most \<open>N\<close> of them. When the session
  retains no message the first call, and no other, is a first message: it carries the
  task prompt after \<^verbatim>\<open>securityPrompt\<close>; with a retained message there is none. Every request
  carries the cursor left by the replies before it, and the session retains the last
  cursor.
\<close>

theorem chained_requests:
  assumes "promptSet env options fileResult = Inr (systemPrompt # codePrompts)"
    and "codePrompts \<noteq> []"
    and "sendFileResult api env options fileResult this = (Inr messageArray, t, this')"
  shows "map Inr (promptTexts t) = map (securityPrompt env options) codePrompts \<and>
    countSite SendPrompt t = length codePrompts \<and>
    countSite SendContinue t = length (filter truncatedReply t) \<and>
    countSite SendContinue t \<le> length codePrompts \<and>
    continuationsFollow False t \<and> \<not> continuationDue False t \<and>
    countSite SendFirst t = (case parentMessage this of None \<Rightarrow> 1 | Some m \<Rightarrow> 0) \<and>
    map Inr (firstTexts t) =
      (case parentMessage this of
         None \<Rightarrow> [securityPrompt env options systemPrompt]
       | Some m \<Rightarrow> []) \<and>
    list_all (\<lambda>x. fst x \<noteq> SendFirst) (tl t) \<and>
    length t = countSite SendFirst t + length codePrompts + countSite SendContinue t \<and>
    wellChained (parentMessage this) t \<and>
    parentMessage this' = cursorAfter (parentMessage this) t \<and>
    parentMessage this' \<noteq> None"
proof -
  note ok = sendFileResult_ok [OF assms]
  note tr = sendFileResult_trace [OF assms(1,3)]
  note order = sendFileResult_order [OF assms]
  have "map Inr (promptTexts t) = map (securityPrompt env options) codePrompts"
    using tr(8) ok(4) by simp
  moreover have "countSite SendContinue t \<le> length codePrompts"
    using tr(6) ok(4) by simp
  moreover have "length t = countSite SendFirst t + length codePrompts + countSite SendContinue t"
    using length_by_site [of t] ok(4) by simp
  ultimately show ?thesis using ok(4,5,6,7) tr(1,5) order by blast
qed

theorem chained_requests_witness:
  "map Inr (promptTexts (fst (snd (demoRun demoOptions demoReplies)))) =
     [Inr ''f'' :: error + string, Inr ''g''] \<and>
   countSite SendPrompt (fst (snd (demoRun demoOptions demoReplies))) = 2 \<and>
   countSite SendContinue (fst (snd (demoRun demoOptions demoReplies))) = 1 \<and>
   continuationsFollow False (fst (snd (demoRun demoOptions demoReplies))) \<and>
   countSite SendFirst (fst (snd (demoRun demoOptions demoReplies))) = 1 \<and>
   map Inr (firstTexts (fst (snd (demoRun demoOptions demoReplies)))) =
     [Inr (basePrompt ''write tests'' demoOptions) :: error + string] \<and>
   list_all (\<lambda>x. fst x \<noteq> SendFirst) (tl (fst (snd (demoRun demoOptions demoReplies)))) \<and>
   length (fst (snd (demoRun demoOptions demoReplies))) = 4 \<and>
   wellChained None (fst (snd (demoRun demoOptions demoReplies))) \<and>
   parentMessage (snd (snd (demoRun demoOptions demoReplies))) =
     cursorAfter None (fst (snd (demoRun demoOptions demoReplies))) \<and>
   map fst (fst (snd (demoRun demoOptions demoReplies))) =
     [SendFirst, SendPrompt, SendContinue, SendPrompt]"
proof -
  have r: "fst (demoRun demoOptions demoReplies) = Inr [fence @ ''AB'', ''C'']" by code_simp
  have c: "countSite SendContinue (fst (snd (demoRun demoOptions demoReplies))) = 1" by code_simp
  have s: "map (securityPrompt demoEnv demoOptions) [''f'', ''g''] = [Inr ''f'', Inr ''g'']" by code_simp
  have b: "securityPrompt demoEnv demoOptions (basePrompt ''write tests'' demoOptions) =
      Inr (basePrompt ''write tests'' demoOptions)"
    by (simp add: securityPrompt_def demoOptions_def)
  have p: "parentMessage (demoSession demoReplies) = None" by (simp add: demoSession_def)
  have o: "map fst (fst (snd (demoRun demoOptions demoReplies))) =
      [SendFirst, SendPrompt, SendContinue, SendPrompt]"
    by code_simp
  from chained_requests [OF demoRun_promptSet _ demoRun_eq [of demoOptions demoReplies, unfolded r]] o
  show ?thesis unfolding s p c b by simp
qed

text \<open>
  With two code prompts whose replies both open a fence, four requests follow the first
  message: not two, and not three.
\<close>

theorem chained_requests_counterexample:
  "promptSet demoEnv demoOptions (Some demoFile) =
     Inr [basePrompt ''write tests'' demoOptions, ''f'', ''g''] \<and>
   fst (demoRun demoOptions truncatedReplies) = Inr [fence @ ''x'', fence @ ''y''] \<and>
   countSite SendPrompt (fst (snd (demoRun demoOptions truncatedReplies))) +
   countSite SendContinue (fst (snd (demoRun demoOptions truncatedReplies))) = 4 \<and>
   length (fst (snd (demoRun demoOptions truncatedReplies))) = 5 \<and>
   map fst (fst (snd (demoRun demoOptions truncatedReplies))) =
     [SendFirst, SendPrompt, SendContinue, SendPrompt, SendContinue]"
  by code_simp

subsection \<open>No code prompts\<close>

text \<open>
  C4. When the prompts of a file are the task prompt alone, \<^verbatim>\<open>sendFileResult\<close> and \<^verbatim>\<open>run\<close>
  return the empty list, make no request and leave the session as it was.
\<close>

theorem no_code_prompts_no_request:
  assumes "promptSet env options fileResult = Inr [systemPrompt]"
  shows "sendFileResult api env options fileResult this = (Inr [], [], this) \<and>
    run api env options fileResult this = (Inr [], [], this)"
proof -
  have sf: "sendFileResult api env options fileResult this = (Inr [], [], this)"
    using assms by (simp add: sendFileResult_def)
  obtain ty where "userOptions_huskyGPTType options = Inr ty"
    using assms by (cases "userOptions_huskyGPTType options") (simp_all add: promptSet_def generatePrompt_def)
  with sf show ?thesis by (simp add: run_def)
qed

theorem no_code_prompts_no_request_witness:
  "sendFileResult scripted demoEnv demoOptions (Some \<lparr>filePath = None, fileContent = Some ''h''\<rparr>)
      (demoSession [Inr (demoMessage ''m1'' ''c1'' ''A'')]) =
      (Inr [], [], demoSession [Inr (demoMessage ''m1'' ''c1'' ''A'')]) \<and>
   run scripted demoEnv demoOptions (Some \<lparr>filePath = None, fileContent = Some ''h''\<rparr>)
      (demoSession [Inr (demoMessage ''m1'' ''c1'' ''A'')]) =
      (Inr [], [], demoSession [Inr (demoMessage ''m1'' ''c1'' ''A'')])"
proof -
  have gp: "promptSet demoEnv demoOptions (Some \<lparr>filePath = None, fileContent = Some ''h''\<rparr>) =
      Inr [basePrompt ''write tests'' demoOptions]"
    by code_simp
  show ?thesis
    by (rule no_code_prompts_no_request [OF gp])
qed

subsection \<open>Failure of a request\<close>

text \<open>
  C5. A rejected request is the last request of the pass and its error is the outcome of
  \<^verbatim>\<open>sendFileResult\<close>; the requests sent for code prompts are those of the first prompts in
  order; \<^verbatim>\<open>run\<close> returns the one fixed message.
\<close>

theorem failure_stops_the_pass:
  assumes "promptSet env options fileResult = Inr (systemPrompt # codePrompts)"
    and "sendFileResult api env options fileResult this = (r, t, this')"
    and "t = t1 @ (site, rq, Inl e) # t2"
  shows "t2 = [] \<and> r = Inl e \<and>
    run api env options fileResult this = (Inr [''[huskygpt] call OpenAI API failed!''], t, this') \<and>
    map Inr (promptTexts t) =
      map (securityPrompt env options) (take (countSite SendPrompt t) codePrompts)"
proof -
  note tr = sendFileResult_trace [OF assms(1,2)]
  from tr(2) assms(3) have stop: "t2 = [] \<and> r = Inl e"
    using stopsAtFailure_mid by blast
  obtain ty where "userOptions_huskyGPTType options = Inr ty"
    using promptSet_getter [OF assms(1)] by blast
  with assms(2) stop
  have "run api env options fileResult this = (Inr [''[huskygpt] call OpenAI API failed!''], t, this')"
    by (simp add: run_def)
  with stop tr(8) show ?thesis by blast
qed

theorem failure_stops_the_pass_witness:
  "fst (demoRun demoOptions [Inr (demoMessage ''m0'' ''c0'' ''hello''), Inl (Rejected ''timeout''),
      Inr (demoMessage ''m2'' ''c2'' ''B'')]) = Inl (Rejected ''timeout'') \<and>
   run scripted demoEnv demoOptions (Some demoFile)
     (demoSession [Inr (demoMessage ''m0'' ''c0'' ''hello''), Inl (Rejected ''timeout''),
        Inr (demoMessage ''m2'' ''c2'' ''B'')]) =
     (Inr [''[huskygpt] call OpenAI API failed!''],
      [(SendFirst, \<lparr>req_text = basePrompt ''write tests'' demoOptions, req_options = None\<rparr>,
          Inr (demoMessage ''m0'' ''c0'' ''hello'')),
       (SendPrompt, \<lparr>req_text = ''f'', req_options = Some (sendOptions
          \<lparr>prev_conversationId = Some ''c0'', prev_parentMessageId = Some ''m0''\<rparr>)\<rparr>,
          Inl (Rejected ''timeout''))],
      demoSession [Inr (demoMessage ''m2'' ''c2'' ''B'')])"
proof -
  let ?rs = "[Inr (demoMessage ''m0'' ''c0'' ''hello''), Inl (Rejected ''timeout''),
      Inr (demoMessage ''m2'' ''c2'' ''B'')]"
  have t: "fst (snd (demoRun demoOptions ?rs)) =
      [(SendFirst, \<lparr>req_text = basePrompt ''write tests'' demoOptions, req_options = None\<rparr>,
          Inr (demoMessage ''m0'' ''c0'' ''hello''))] @
       (SendPrompt, \<lparr>req_text = ''f'', req_options = Some (sendOptions
          \<lparr>prev_conversationId = Some ''c0'', prev_parentMessageId = Some ''m0''\<rparr>)\<rparr>,
          Inl (Rejected ''timeout'')) # []"
    by code_simp
  have s: "snd (snd (demoRun demoOptions ?rs)) = demoSession [Inr (demoMessage ''m2'' ''c2'' ''B'')]"
    by code_simp
  from failure_stops_the_pass [OF demoRun_promptSet demoRun_eq t]
  show ?thesis unfolding t s by simp
qed

subsection \<open>Redaction\<close>

text \<open>
  C6, as amended. The first request of a call of \<^verbatim>\<open>sendMessage\<close> carries the prompt after
  \<^verbatim>\<open>securityPrompt\<close>: the prompt itself when no pattern is set or nothing matches, else the
  prompt with \<^verbatim>\<open>REMOVED\<close> in the place of each match of the scan. A further request is a
  continuation and carries the text \<^verbatim>\<open>continue\<close> as it is.
\<close>

theorem prompts_are_redacted:
  assumes "sendMessage api env options prompt prevMessage this = (r, t, this')"
    and "t \<noteq> []"
  shows "\<exists>sp. securityPrompt env options prompt = Inr sp \<and>
      fst (hd t) \<noteq> SendContinue \<and> req_text (fst (snd (hd t))) = sp \<and>
      list_all (\<lambda>x. fst x = SendContinue \<and> req_text (fst (snd x)) = ''continue'') (tl t) \<and>
      (securityRegex options = None \<or> securityRegex options = Some [] \<longrightarrow> sp = prompt) \<and>
      (\<forall>source regex.
         securityRegex options = Some source \<and> source \<noteq> [] \<and> newRegExp env source = Some regex \<longrightarrow>
           sp = concat (map (\<lambda>g. case g of Kept c \<Rightarrow> [c] | Matched x \<Rightarrow> ''REMOVED'')
                  (segments regex [] prompt)) \<and>
           prompt = concat (map (\<lambda>g. case g of Kept c \<Rightarrow> [c] | Matched x \<Rightarrow> x)
                  (segments regex [] prompt)) \<and>
           (js_match regex prompt = [] \<longrightarrow> sp = prompt))"
proof -
  obtain sp where sp: "securityPrompt env options prompt = Inr sp"
    and hd: "fst (hd t) \<noteq> SendContinue" "req_text (fst (snd (hd t))) = sp"
    and tl: "list_all (\<lambda>x. fst x = SendContinue \<and> req_text (fst (snd x)) = ''continue'') (tl t)"
  proof (cases prevMessage)
    case None
    from assms(1) [unfolded None] assms(2) that show ?thesis
      by (cases rule: sendMessage_first_cases) simp_all
  next
    case (Some prev)
    from assms(1) [unfolded Some] assms(2) that show ?thesis
      by (cases rule: sendMessage_prev_cases) simp_all
  qed
  have off: "sp = prompt" if "securityRegex options = None \<or> securityRegex options = Some []"
    using that sp by (auto simp: securityPrompt_def)
  have on: "sp = js_replace regex prompt ''REMOVED''"
    if "securityRegex options = Some source" "source \<noteq> []" "newRegExp env source = Some regex"
    for source regex
    using that sp by (simp add: securityPrompt_def)
  show ?thesis
    using sp hd tl off on js_replace_no_match [of _ prompt "''REMOVED''"] segments_partition [of _ "[]" prompt]
    by (auto simp: js_replace_def)
qed

theorem prompts_are_redacted_witness:
  "securityPrompt demoEnv tinOptions ''a tIn b'' = Inr ''a REMOVED b'' \<and>
   req_text (fst (snd (hd (fst (snd (sendMessage scripted demoEnv tinOptions ''a tIn b'' None
     (demoSession [Inr (demoMessage ''m0'' ''c0'' ''hello'')]))))))) = ''a REMOVED b''"
proof -
  let ?x = "sendMessage scripted demoEnv tinOptions ''a tIn b'' None
     (demoSession [Inr (demoMessage ''m0'' ''c0'' ''hello'')])"
  have e: "?x = (fst ?x, fst (snd ?x), snd (snd ?x))" by simp
  have n: "fst (snd ?x) \<noteq> []" by code_simp
  have s: "securityPrompt demoEnv tinOptions ''a tIn b'' = Inr ''a REMOVED b''" by code_simp
  from prompts_are_redacted [OF e n] s show ?thesis by auto
qed

text \<open>
  With the pattern \<^verbatim>\<open>tin\<close> the continuation is sent as \<^verbatim>\<open>continue\<close>, although the pattern
  matches in it.
\<close>

theorem continuation_text_counterexample:
  "fst (last (fst (snd (sendMessage scripted demoEnv tinOptions ''f'' (Some demoPrev)
      (demoSession [Inr (demoMessage ''m1'' ''c1'' fence), Inr (demoMessage ''m2'' ''c2'' ''B'')]))))) =
     SendContinue \<and>
   req_text (fst (snd (last (fst (snd (sendMessage scripted demoEnv tinOptions ''f'' (Some demoPrev)
      (demoSession [Inr (demoMessage ''m1'' ''c1'' fence), Inr (demoMessage ''m2'' ''c2'' ''B'')]))))))) =
     ''continue'' \<and>
   securityPrompt demoEnv tinOptions ''continue'' = Inr ''conREMOVEDue''"
  by code_simp

subsection \<open>Time bound and cancellation\<close>




subsection \<open>One continuation per reply\<close>

text \<open>
  C8. One call of \<^verbatim>\<open>sendMessage\<close> makes at most two requests, at most one of them a
  continuation, and a continuation has the text \<^verbatim>\<open>continue\<close>; the merged text is not tested
  again.
\<close>

theorem one_continuation_per_reply:
  assumes "sendMessage api env options prompt prevMessage this = (r, t, this')"
  shows "countSite SendContinue t \<le> 1 \<and> length t \<le> 2 \<and>
    list_all (\<lambda>x. req_text (fst (snd x)) = ''continue'') (filter (\<lambda>x. fst x = SendContinue) t)"
proof (cases prevMessage)
  case None
  from assms [unfolded None] show ?thesis
    by (cases rule: sendMessage_first_cases) (simp_all add: countSite_def)
next
  case (Some prev)
  from assms [unfolded Some] show ?thesis
    by (cases rule: sendMessage_prev_cases) (simp_all add: countSite_def)
qed

theorem one_continuation_per_reply_witness:
  "countSite SendContinue (fst (snd (sendMessage scripted demoEnv demoOptions ''f'' (Some demoPrev)
      (demoSession [Inr (demoMessage ''m1'' ''c1'' (fence @ ''A'')), Inr (demoMessage ''m2'' ''c2'' ''B''),
         Inr (demoMessage ''m3'' ''c3'' fence)])))) \<le> 1 \<and>
   length (fst (snd (sendMessage scripted demoEnv demoOptions ''f'' (Some demoPrev)
      (demoSession [Inr (demoMessage ''m1'' ''c1'' (fence @ ''A'')), Inr (demoMessage ''m2'' ''c2'' ''B''),
         Inr (demoMessage ''m3'' ''c3'' fence)])))) = 2 \<and>
   map_sum id (\<lambda>m. needsContinuation (msg_text m))
     (fst (sendMessage scripted demoEnv demoOptions ''f'' (Some demoPrev)
      (demoSession [Inr (demoMessage ''m1'' ''c1'' (fence @ ''A'')), Inr (demoMessage ''m2'' ''c2'' ''B''),
         Inr (demoMessage ''m3'' ''c3'' fence)]))) = Inr True \<and>
   remote (snd (snd (sendMessage scripted demoEnv demoOptions ''f'' (Some demoPrev)
      (demoSession [Inr (demoMessage ''m1'' ''c1'' (fence @ ''A'')), Inr (demoMessage ''m2'' ''c2'' ''B''),
         Inr (demoMessage ''m3'' ''c3'' fence)])))) = [Inr (demoMessage ''m3'' ''c3'' fence)]"
proof -
  let ?x = "sendMessage scripted demoEnv demoOptions ''f'' (Some demoPrev)
      (demoSession [Inr (demoMessage ''m1'' ''c1'' (fence @ ''A'')), Inr (demoMessage ''m2'' ''c2'' ''B''),
         Inr (demoMessage ''m3'' ''c3'' fence)])"
  have "?x = (fst ?x, fst (snd ?x), snd (snd ?x))" by simp
  note th = one_continuation_per_reply [OF this]
  have a: "length (fst (snd ?x)) = 2" by code_simp
  have b: "map_sum id (\<lambda>m. needsContinuation (msg_text m)) (fst ?x) = Inr True" by code_simp
  have c: "remote (snd (snd ?x)) = [Inr (demoMessage ''m3'' ''c3'' fence)]" by code_simp
  from th a b c show ?thesis by blast
qed

subsection \<open>Failures of the prompt builder\<close>




subsection \<open>The returned texts\<close>

text \<open>
  C10. A pass that succeeds returns as many texts as there are code prompts: the reply
  texts of the calls other than the first message, in the order of the code prompts.
\<close>

theorem one_text_per_code_prompt:
  assumes "promptSet env options fileResult = Inr (systemPrompt # codePrompts)"
    and "sendFileResult api env options fileResult this = (Inr messageArray, t, this')"
  shows "length messageArray = length codePrompts \<and>
    messageArray = replyTexts (filter (\<lambda>x. fst x \<noteq> SendFirst) t) \<and>
    map Inr (promptTexts t) = map (securityPrompt env options) codePrompts"
proof (cases "codePrompts = []")
  case True
  with assms have "messageArray = []" "t = []" by (simp_all add: sendFileResult_def)
  with True show ?thesis by (simp add: replyTexts_def promptTexts_def)
next
  case False
  note ok = sendFileResult_ok [OF assms(1) False assms(2)]
  note tr = sendFileResult_trace [OF assms]
  have "replyTexts (filter (\<lambda>x. fst x \<noteq> SendFirst) t) = replyTexts t"
    unfolding replyTexts_def by (rule addReply_skips_first)
  with ok(1,2,4) tr(8) show ?thesis by simp
qed

theorem one_text_per_code_prompt_witness:
  "length [fence @ ''AB'', ''C''] = length [''f'', ''g''] \<and>
   [fence @ ''AB'', ''C''] = replyTexts (filter (\<lambda>x. fst x \<noteq> SendFirst)
      (fst (snd (demoRun demoOptions [Inr (demoMessage ''m0'' ''c0'' ''hello''),
        Inr (demoMessage ''m1'' ''c1'' (fence @ ''A'')), Inr (demoMessage ''m2'' ''c2'' ''B''),
        Inr (demoMessage ''m3'' ''c3'' ''C'')]))))"
proof -
  let ?rs = "[Inr (demoMessage ''m0'' ''c0'' ''hello''),
        Inr (demoMessage ''m1'' ''c1'' (fence @ ''A'')), Inr (demoMessage ''m2'' ''c2'' ''B''),
        Inr (demoMessage ''m3'' ''c3'' ''C'')]"
  have r: "fst (demoRun demoOptions ?rs) = Inr [fence @ ''AB'', ''C'']" by code_simp
  from one_text_per_code_prompt [OF demoRun_promptSet demoRun_eq [of demoOptions ?rs, unfolded r]]
  show ?thesis by blast
qed

end
